theory Spec2Isabelle
  imports Main
begin

section \<open>Values, session state and failures\<close>

text \<open>
  The workflow of \<^verbatim>\<open>src/graph/workflow.py\<close> threads a Python dictionary through
  four nodes.  The values stored in it are Python objects; the ones the workflow
  distinguishes are \<^verbatim>\<open>None\<close>, strings, integers and the result dictionary that
  generated code binds to \<^verbatim>\<open>output_dict\<close>.
\<close>

datatype pyval = VNone | VStr string | VInt int | VDict "(string \<times> pyval) list"

text \<open>
  Modelled from the spec: the \<^verbatim>\<open>State\<close> typed dictionary of
  \<^verbatim>\<open>src/models/state_models.py\<close>, which is not among the sources.  Its keys are
  \<^verbatim>\<open>user_query\<close>, \<^verbatim>\<open>task_plan\<close>, \<^verbatim>\<open>code\<close>, \<^verbatim>\<open>error\<close>, \<^verbatim>\<open>iterations\<close>, \<^verbatim>\<open>output\<close> and
  \<^verbatim>\<open>answer\<close>.  A key may be absent, in which case \<^verbatim>\<open>state[key]\<close> raises.
\<close>

type_synonym state = "string \<rightharpoonup> pyval"

text \<open>Exceptions that leave a node and end the whole run.\<close>

datatype failure =
    KeyError string
  | TypeError
  | UnboundLocalError string
  | ModelCallFailed string
  | UncaughtBaseException string
  | NoBranch string

definition lookup :: "state \<Rightarrow> string \<Rightarrow> failure + pyval" where
  "lookup s k = (case s k of None \<Rightarrow> Inl (KeyError k) | Some v \<Rightarrow> Inr v)"

text \<open>Python truthiness, as used by \<^verbatim>\<open>if error:\<close>.\<close>

fun truthy :: "pyval \<Rightarrow> bool" where
  "truthy VNone = False"
| "truthy (VStr t) = (t \<noteq> [])"
| "truthy (VInt i) = (i \<noteq> 0)"
| "truthy (VDict kvs) = (kvs \<noteq> [])"

text \<open>\<^verbatim>\<open>iterations + 1\<close> and \<^verbatim>\<open>iterations < 3\<close>: defined on integers, a type error otherwise.\<close>

definition plus_one :: "pyval \<Rightarrow> failure + pyval" where
  "plus_one v = (case v of VInt i \<Rightarrow> Inr (VInt (i + 1)) | _ \<Rightarrow> Inl TypeError)"

definition less_than_3 :: "pyval \<Rightarrow> failure + bool" where
  "less_than_3 v = (case v of VInt i \<Rightarrow> Inr (i < 3) | _ \<Rightarrow> Inl TypeError)"

section \<open>The collaborators: dataset, language model, interpreter\<close>

text \<open>
  The dataset is used through \<^verbatim>\<open>df.head(2).to_markdown()\<close>, \<^verbatim>\<open>df.columns\<close> and
  \<^verbatim>\<open>df.dtypes.items()\<close>.
\<close>

record dataframe =
  head_markdown :: string
  dtypes :: "(string \<times> string) list"

definition columns :: "dataframe \<Rightarrow> string list" where
  "columns d = map fst (dtypes d)"

definition nl :: string where
  "nl = [CHR 0x0A]"

definition df_schema_preview :: "dataframe \<Rightarrow> string \<times> string \<times> string" where
  "df_schema_preview d =
     (let data_frame_preview = head_markdown d;
          available_columns =
            foldl (\<lambda>acc col. acc @ ''| '' @ col @ '' |'' @ nl)
              (''| Column Name |'' @ nl @ ''|--------|'' @ nl) (columns d);
          column_data_types =
            foldl (\<lambda>acc (col, dtype). acc @ ''| '' @ col @ '' | '' @ dtype @ '' |'' @ nl)
              (''| Column Name | Data Type |'' @ nl @ ''|---------|--------|'' @ nl) (dtypes d)
      in (data_frame_preview, available_columns, column_data_types))"

text \<open>
  What is handed to the language model.  The wording of the templates
  (\<^verbatim>\<open>TASK_PLANNER_PROMPT\<close>, \<^verbatim>\<open>PYTHON_CODE_PROMPT\<close>, \<^verbatim>\<open>FORMAT_RESULT_PROMPT\<close> and the repair
  sentence) is fixed; a prompt is determined by the template and the values put into it.
\<close>

datatype prompt =
    PlannerPrompt string string string pyval
  | CodePrompt string string string pyval pyval
  | RepairPrompt pyval pyval pyval
  | FormatPrompt pyval pyval

fun prompt_plan :: "prompt \<Rightarrow> pyval option" where
  "prompt_plan (RepairPrompt error code task_plan) = Some task_plan"
| "prompt_plan (CodePrompt p a c execution_plan q) = Some execution_plan"
| "prompt_plan _ = None"

fun is_repair :: "prompt \<Rightarrow> bool" where
  "is_repair (RepairPrompt error code task_plan) = True"
| "is_repair _ = False"

fun is_fresh :: "prompt \<Rightarrow> bool" where
  "is_fresh (CodePrompt p a c execution_plan q) = True"
| "is_fresh _ = False"

text \<open>The bindings of \<^verbatim>\<open>exec_globals\<close>: the dataset and six imported modules.\<close>

datatype binding = Dataset dataframe | Module string | Builtins

text \<open>
  How a call of \<^verbatim>\<open>exec(code, exec_globals, exec_locals)\<close> ends: the code ran to its end and
  left the local bindings behind, or it raised.  \<^verbatim>\<open>except Exception\<close> catches what derives
  from \<^verbatim>\<open>Exception\<close>; \<^verbatim>\<open>SystemExit\<close>, \<^verbatim>\<open>KeyboardInterrupt\<close> and \<^verbatim>\<open>GeneratorExit\<close> derive
  from \<^verbatim>\<open>BaseException\<close> only.  The string is \<^verbatim>\<open>str(e)\<close>.
\<close>

datatype exec_outcome =
    Completed "string \<rightharpoonup> pyval"
  | RaisedException string
  | RaisedBaseException string

record env =
  df :: dataframe
  llm_invoke :: "prompt \<Rightarrow> failure + string"
  llm_structured :: "prompt \<Rightarrow> failure + string"
  py_exec :: "pyval \<Rightarrow> (string \<rightharpoonup> binding) \<Rightarrow> (string \<rightharpoonup> pyval) \<Rightarrow> exec_outcome"

section \<open>The nodes of \<^verbatim>\<open>create_workflow\<close>\<close>

definition plan_task :: "env \<Rightarrow> state \<Rightarrow> failure + state" where
  "plan_task e s =
     (case df_schema_preview (df e) of
        (data_frame_preview, available_columns, column_data_types) \<Rightarrow>
          (case lookup s ''user_query'' of
             Inl x \<Rightarrow> Inl x
           | Inr user_question \<Rightarrow>
               (case llm_invoke e (PlannerPrompt data_frame_preview available_columns
                                     column_data_types user_question) of
                  Inl x \<Rightarrow> Inl x
                | Inr content \<Rightarrow> Inr [''task_plan'' \<mapsto> VStr content])))"

text \<open>
  The prompt \<^verbatim>\<open>execute_task\<close> builds for the model: the repair sentence when
  \<^verbatim>\<open>state["error"]\<close> is truthy, the code template otherwise.  The keys are read in
  the order of the source.
\<close>

definition synthesis_prompt :: "env \<Rightarrow> state \<Rightarrow> failure + prompt" where
  "synthesis_prompt e s =
     (case lookup s ''error'' of
        Inl x \<Rightarrow> Inl x
      | Inr error \<Rightarrow>
          (if truthy error then
             (case lookup s ''code'' of
                Inl x \<Rightarrow> Inl x
              | Inr code \<Rightarrow>
                  (case lookup s ''task_plan'' of
                     Inl x \<Rightarrow> Inl x
                   | Inr task_plan \<Rightarrow> Inr (RepairPrompt error code task_plan)))
           else
             (case df_schema_preview (df e) of
                (data_frame_preview, available_columns, column_data_types) \<Rightarrow>
                  (case lookup s ''task_plan'' of
                     Inl x \<Rightarrow> Inl x
                   | Inr task_plan \<Rightarrow>
                       (case lookup s ''user_query'' of
                          Inl x \<Rightarrow> Inl x
                        | Inr user_question \<Rightarrow>
                            Inr (CodePrompt data_frame_preview available_columns
                                   column_data_types task_plan user_question))))))"

text \<open>
  Both branches of \<^verbatim>\<open>execute_task\<close> end alike: the model is asked for a \<^verbatim>\<open>Code\<close>
  object, \<^verbatim>\<open>state["iterations"]\<close> is read, and \<^verbatim>\<open>final_code\<close> is returned with the
  counter plus one.
\<close>

definition execute_task :: "env \<Rightarrow> state \<Rightarrow> failure + state" where
  "execute_task e s =
     (case synthesis_prompt e s of
        Inl x \<Rightarrow> Inl x
      | Inr p \<Rightarrow>
          (case llm_structured e p of
             Inl x \<Rightarrow> Inl x
           | Inr final_code \<Rightarrow>
               (case lookup s ''iterations'' of
                  Inl x \<Rightarrow> Inl x
                | Inr iterations \<Rightarrow>
                    (case plus_one iterations of
                       Inl x \<Rightarrow> Inl x
                     | Inr next_iterations \<Rightarrow>
                         Inr [''code'' \<mapsto> VStr final_code,
                              ''iterations'' \<mapsto> next_iterations]))))"

definition exec_globals :: "dataframe \<Rightarrow> (string \<rightharpoonup> binding)" where
  "exec_globals d =
     [''df'' \<mapsto> Dataset d,
      ''pd'' \<mapsto> Module ''pandas'',
      ''px'' \<mapsto> Module ''plotly.express'',
      ''np'' \<mapsto> Module ''numpy'',
      ''re'' \<mapsto> Module ''re'',
      ''dt'' \<mapsto> Module ''datetime.datetime'',
      ''go'' \<mapsto> Module ''plotly.graph_objects'']"

definition exec_locals :: "string \<rightharpoonup> pyval" where
  "exec_locals = Map.empty"

text \<open>
  \<^verbatim>\<open>exec\<close> inserts a reference to the built-in module under \<^verbatim>\<open>__builtins__\<close> into a
  globals dictionary that has no such key; the code then resolves names in the locals,
  the globals and the built-ins.
\<close>

definition exec_namespace :: "(string \<rightharpoonup> binding) \<Rightarrow> (string \<rightharpoonup> binding)" where
  "exec_namespace g = (if ''__builtins__'' \<in> dom g then g else g(''__builtins__'' \<mapsto> Builtins))"

text \<open>
  \<^verbatim>\<open>code\<close> and \<^verbatim>\<open>iterations\<close> are assigned inside the \<^verbatim>\<open>try\<close> block and read in the handler:
  when one of the two keys is absent the \<^verbatim>\<open>KeyError\<close> is caught, and the handler's
  \<^verbatim>\<open>print\<close> fails on the unassigned local \<^verbatim>\<open>iterations\<close>.
\<close>

definition execute_with_exec :: "env \<Rightarrow> state \<Rightarrow> failure + state" where
  "execute_with_exec e s =
     (case lookup s ''code'' of
        Inl x \<Rightarrow> Inl (UnboundLocalError ''iterations'')
      | Inr code \<Rightarrow>
          (case lookup s ''iterations'' of
             Inl x \<Rightarrow> Inl (UnboundLocalError ''iterations'')
           | Inr iterations \<Rightarrow>
               (case py_exec e code (exec_globals (df e)) exec_locals of
                  RaisedBaseException msg \<Rightarrow> Inl (UncaughtBaseException msg)
                | RaisedException msg \<Rightarrow> Inr [''code'' \<mapsto> code, ''error'' \<mapsto> VStr msg]
                | Completed locals \<Rightarrow>
                    (case locals ''output_dict'' of
                       None \<Rightarrow>
                         Inr [''code'' \<mapsto> code, ''error'' \<mapsto> VStr ''Missing output_dict'']
                     | Some output_dict \<Rightarrow>
                         Inr [''output'' \<mapsto> output_dict, ''error'' \<mapsto> VNone]))))"

text \<open>
  \<^verbatim>\<open>retry_code\<close> returns the name of a branch; on \<^verbatim>\<open>"STOP"\<close> it has assigned
  \<^verbatim>\<open>state["output"] = None\<close> first.  The model returns the state as the function leaves it.
\<close>

definition retry_code :: "state \<Rightarrow> failure + (string \<times> state)" where
  "retry_code s =
     (case lookup s ''error'' of
        Inl x \<Rightarrow> Inl x
      | Inr error \<Rightarrow>
          (case lookup s ''iterations'' of
             Inl x \<Rightarrow> Inl x
           | Inr iterations \<Rightarrow>
               (if error = VNone then Inr (''END'', s)
                else
                  (case less_than_3 iterations of
                     Inl x \<Rightarrow> Inl x
                   | Inr True \<Rightarrow> Inr (''RETRY'', s)
                   | Inr False \<Rightarrow> Inr (''STOP'', s(''output'' \<mapsto> VNone))))))"

definition format_result :: "env \<Rightarrow> state \<Rightarrow> failure + state" where
  "format_result e s =
     (case lookup s ''user_query'' of
        Inl x \<Rightarrow> Inl x
      | Inr user_question \<Rightarrow>
          (case lookup s ''output'' of
             Inl x \<Rightarrow> Inl x
           | Inr result \<Rightarrow>
               (case llm_invoke e (FormatPrompt user_question result) of
                  Inl x \<Rightarrow> Inl x
                | Inr content \<Rightarrow> Inr [''answer'' \<mapsto> VStr content])))"

section \<open>The graph\<close>

text \<open>
  The nodes added to the graph, its two end points and the conditional edge that follows
  \<^verbatim>\<open>Code Execution\<close>.  The state is one dictionary threaded through the nodes: what a
  node returns is written over the keys it names.
\<close>

datatype node = START | Plan_Task | Execute_Task | Code_Execution | Conditional_Edge
  | Format_Result | END

definition path_map :: "(string \<times> node) list" where
  "path_map = [(''RETRY'', Execute_Task), (''STOP'', END), (''END'', Format_Result)]"

definition run_node :: "(state \<Rightarrow> failure + state) \<Rightarrow> node \<Rightarrow> state \<Rightarrow> failure + (node \<times> state)" where
  "run_node f target s = (case f s of Inl x \<Rightarrow> Inl x | Inr update \<Rightarrow> Inr (target, s ++ update))"

fun step :: "env \<Rightarrow> node \<times> state \<Rightarrow> failure + (node \<times> state)" where
  "step e (START, s) = Inr (Plan_Task, s)"
| "step e (Plan_Task, s) = run_node (plan_task e) Execute_Task s"
| "step e (Execute_Task, s) = run_node (execute_task e) Code_Execution s"
| "step e (Code_Execution, s) = run_node (execute_with_exec e) Conditional_Edge s"
| "step e (Conditional_Edge, s) =
     (case retry_code s of
        Inl x \<Rightarrow> Inl x
      | Inr (branch, s') \<Rightarrow>
          (case map_of path_map branch of
             None \<Rightarrow> Inl (NoBranch branch)
           | Some target \<Rightarrow> Inr (target, s')))"
| "step e (Format_Result, s) = run_node (format_result e) END s"
| "step e (END, s) = Inr (END, s)"

text \<open>
  A bound on the number of nodes still to run, from the attempt counter: each pass
  through \<^verbatim>\<open>Execute Task\<close> uses up one of the attempts left below 3.
\<close>

definition iterations_of :: "state \<Rightarrow> int" where
  "iterations_of s = (case s ''iterations'' of Some (VInt n) \<Rightarrow> n | _ \<Rightarrow> 3)"

fun steps_bound :: "node \<times> state \<Rightarrow> nat" where
  "steps_bound (START, s) = 6 + 3 * nat (2 - iterations_of s)"
| "steps_bound (Plan_Task, s) = 5 + 3 * nat (2 - iterations_of s)"
| "steps_bound (Execute_Task, s) = 4 + 3 * nat (2 - iterations_of s)"
| "steps_bound (Code_Execution, s) = 3 + 3 * nat (3 - iterations_of s)"
| "steps_bound (Conditional_Edge, s) = 2 + 3 * nat (3 - iterations_of s)"
| "steps_bound (Format_Result, s) = 1"
| "steps_bound (END, s) = 0"

text \<open>
  A run of the compiled graph from a node: the nodes visited with the state each was
  entered in, and the failure that ended the run, if one did.
\<close>

function run :: "env \<Rightarrow> node \<times> state \<Rightarrow> (node \<times> state) list \<times> failure option" where
  "run e c =
     (if fst c = END then ([c], None)
      else case step e c of
             Inl x \<Rightarrow> ([c], Some x)
           | Inr c' \<Rightarrow> (case run e c' of (t, r) \<Rightarrow> (c # t, r)))"
  by pat_completeness auto
termination
proof (relation "measure (\<lambda>(e, c). steps_bound c)")
  show "wf (measure (\<lambda>(e, c). steps_bound c))"
    by simp
next
  fix e :: env and c c' :: "node \<times> state"
  assume live: "fst c \<noteq> END" and next_c: "step e c = Inr c'"
  obtain n s where c: "c = (n, s)"
    by (cases c)
  have "steps_bound c' < steps_bound c"
  proof (cases n)
    case START
    with c next_c show ?thesis by auto
  next
    case Plan_Task
    with c next_c show ?thesis
      by (auto simp: run_node_def plan_task_def iterations_of_def split: sum.splits prod.splits)
  next
    case Execute_Task
    with c next_c show ?thesis
      by (auto simp: run_node_def execute_task_def lookup_def plus_one_def iterations_of_def
          split: sum.splits option.splits pyval.splits)
  next
    case Code_Execution
    with c next_c show ?thesis
      by (auto simp: run_node_def execute_with_exec_def iterations_of_def
          split: sum.splits option.splits exec_outcome.splits)
  next
    case Conditional_Edge
    with c next_c show ?thesis
      by (auto simp: retry_code_def lookup_def less_than_3_def path_map_def iterations_of_def
          split: sum.splits option.splits pyval.splits if_splits bool.splits)
  next
    case Format_Result
    with c next_c show ?thesis
      by (auto simp: run_node_def split: sum.splits)
  next
    case END
    with c live show ?thesis by simp
  qed
  then show "((e, c'), (e, c)) \<in> measure (\<lambda>(e, c). steps_bound c)"
    by simp
qed

declare run.simps [simp del]

definition session :: "env \<Rightarrow> state \<Rightarrow> (node \<times> state) list \<times> failure option" where
  "session e s0 = run e (START, s0)"

text \<open>Counting the visits of a node in a run.\<close>

definition visits :: "node \<Rightarrow> (node \<times> state) list \<Rightarrow> nat" where
  "visits n t = length (filter (\<lambda>c. fst c = n) t)"

section \<open>Predicates on states and runs\<close>

text \<open>
  Modelled from the spec: the state a session starts in.  The caller of the compiled graph
  is not among the sources; the spec describes \<^verbatim>\<open>error\<close> as \<^verbatim>\<open>None\<close> while nothing has
  run and \<^verbatim>\<open>iterations\<close> as the count of synthesis attempts made so far.
\<close>

definition initial_state :: "string \<Rightarrow> state" where
  "initial_state q =
     [''user_query'' \<mapsto> VStr q, ''error'' \<mapsto> VNone, ''iterations'' \<mapsto> VInt 0]"



text \<open>
  The counter is an integer within the budget: at most 2 before a synthesis, between 1
  and 3 after one.
\<close>

definition attempts_ok :: "node \<times> state \<Rightarrow> bool" where
  "attempts_ok c =
     (case snd c ''iterations'' of
        Some (VInt k) \<Rightarrow>
          (if fst c \<in> {START, Plan_Task, Execute_Task} then 0 \<le> k \<and> k \<le> 2
           else 1 \<le> k \<and> k \<le> 3)
      | _ \<Rightarrow> False)"



text \<open>The names bound by the dictionary literal \<^verbatim>\<open>exec_globals\<close>.\<close>

definition allow_list :: "string set" where
  "allow_list = {''df'', ''pd'', ''px'', ''np'', ''re'', ''dt'', ''go''}"

section \<open>Sample inputs\<close>

text \<open>
  A small dataset, a model that always answers, an interpreter with a fixed outcome and
  a state with every key the nodes read: the concrete inputs the general theorems are
  instantiated at.
\<close>

definition sample_df :: dataframe where
  "sample_df =
     \<lparr>head_markdown = ''| | city | sales |'',
      dtypes = [(''city'', ''object''), (''sales'', ''int64'')]\<rparr>"

definition sample_env :: "exec_outcome \<Rightarrow> env" where
  "sample_env outcome =
     \<lparr>df = sample_df,
      llm_invoke = (\<lambda>p. Inr ''some text''),
      llm_structured = (\<lambda>p. Inr ''output_dict = {}''),
      py_exec = (\<lambda>code globals locals. outcome)\<rparr>"

definition sample_state :: "pyval \<Rightarrow> int \<Rightarrow> state" where
  "sample_state error n =
     [''user_query'' \<mapsto> VStr ''total sales?'',
      ''task_plan'' \<mapsto> VStr ''sum the sales column'',
      ''code'' \<mapsto> VStr ''output_dict = {}'',
      ''error'' \<mapsto> error,
      ''iterations'' \<mapsto> VInt n]"

lemmas eval_defs = session_def sample_env_def initial_state_def run_node_def plan_task_def
  execute_task_def synthesis_prompt_def execute_with_exec_def retry_code_def format_result_def
  lookup_def plus_one_def less_than_3_def path_map_def df_schema_preview_def visits_def

section \<open>What each node writes\<close>

lemma lookup_Inr: "lookup s k = Inr v \<longleftrightarrow> s k = Some v"
  by (simp add: lookup_def split: option.splits)

lemma plus_one_Inr: "plus_one v = Inr w \<longleftrightarrow> (\<exists>n. v = VInt n \<and> w = VInt (n + 1))"
  by (cases v) (auto simp: plus_one_def)

lemma less_than_3_Inr: "less_than_3 v = Inr b \<longleftrightarrow> (\<exists>n. v = VInt n \<and> b = (n < 3))"
  by (cases v) (auto simp: less_than_3_def)

lemma plan_task_keys: "plan_task e s = Inr u \<Longrightarrow> \<exists>t. u = [''task_plan'' \<mapsto> VStr t]"
  by (auto simp: plan_task_def split: prod.splits sum.splits)

lemma execute_task_keys:
  "execute_task e s = Inr u \<Longrightarrow>
     \<exists>p c n. synthesis_prompt e s = Inr p \<and> llm_structured e p = Inr c \<and>
       s ''iterations'' = Some (VInt n) \<and>
       u = [''code'' \<mapsto> VStr c, ''iterations'' \<mapsto> VInt (n + 1)]"
  by (auto simp: execute_task_def lookup_Inr plus_one_Inr split: sum.splits)

lemma execute_with_exec_keys:
  "execute_with_exec e s = Inr u \<Longrightarrow>
     (\<exists>c m. s ''code'' = Some c \<and> u = [''code'' \<mapsto> c, ''error'' \<mapsto> VStr m]) \<or>
     (\<exists>v. u = [''output'' \<mapsto> v, ''error'' \<mapsto> VNone])"
  by (auto simp: execute_with_exec_def lookup_Inr
      split: sum.splits option.splits exec_outcome.splits)

lemma format_result_keys: "format_result e s = Inr u \<Longrightarrow> \<exists>t. u = [''answer'' \<mapsto> VStr t]"
  by (auto simp: format_result_def split: sum.splits)

lemma retry_code_cases:
  "retry_code s = Inr (b, s') \<Longrightarrow>
     (b = ''END'' \<and> s' = s \<and> s ''error'' = Some VNone) \<or>
     (b = ''RETRY'' \<and> s' = s \<and> (\<exists>v. s ''error'' = Some v \<and> v \<noteq> VNone) \<and>
        (\<exists>n. s ''iterations'' = Some (VInt n) \<and> n < 3)) \<or>
     (b = ''STOP'' \<and> s' = s(''output'' \<mapsto> VNone) \<and>
        (\<exists>v. s ''error'' = Some v \<and> v \<noteq> VNone) \<and>
        (\<exists>n. s ''iterations'' = Some (VInt n) \<and> 3 \<le> n))"
  by (auto simp: retry_code_def lookup_Inr less_than_3_Inr
      split: sum.splits if_splits bool.splits)

lemma synthesis_prompt_plan: "synthesis_prompt e s = Inr p \<Longrightarrow> prompt_plan p = s ''task_plan''"
  by (auto simp: synthesis_prompt_def lookup_Inr split: sum.splits if_splits prod.splits)

lemma synthesis_prompt_mode:
  "s ''error'' = Some err \<Longrightarrow> synthesis_prompt e s = Inr p \<Longrightarrow>
     is_repair p = truthy err \<and> is_fresh p = (\<not> truthy err)"
  by (auto simp: synthesis_prompt_def lookup_def split: sum.splits if_splits prod.splits)

text \<open>One step of the graph, by the node it leaves.\<close>

lemma step_effect:
  assumes "step e (n, s) = Inr (n', s')"
  shows "(n = START \<and> n' = Plan_Task \<and> s' = s) \<or>
    (n = Plan_Task \<and> n' = Execute_Task \<and>
       (\<exists>t. plan_task e s = Inr [''task_plan'' \<mapsto> VStr t] \<and> s' = s(''task_plan'' \<mapsto> VStr t))) \<or>
    (n = Execute_Task \<and> n' = Code_Execution \<and>
       (\<exists>p c k. synthesis_prompt e s = Inr p \<and> llm_structured e p = Inr c \<and>
          s ''iterations'' = Some (VInt k) \<and>
          s' = s(''code'' \<mapsto> VStr c, ''iterations'' \<mapsto> VInt (k + 1)))) \<or>
    (n = Code_Execution \<and> n' = Conditional_Edge \<and>
       ((\<exists>c m. s ''code'' = Some c \<and> s' = s(''code'' \<mapsto> c, ''error'' \<mapsto> VStr m)) \<or>
        (\<exists>v. s' = s(''output'' \<mapsto> v, ''error'' \<mapsto> VNone)))) \<or>
    (n = Conditional_Edge \<and> n' = Format_Result \<and> s' = s \<and> s ''error'' = Some VNone) \<or>
    (n = Conditional_Edge \<and> n' = Execute_Task \<and> s' = s \<and>
       (\<exists>v. s ''error'' = Some v \<and> v \<noteq> VNone) \<and>
       (\<exists>k. s ''iterations'' = Some (VInt k) \<and> k < 3)) \<or>
    (n = Conditional_Edge \<and> n' = END \<and> s' = s(''output'' \<mapsto> VNone) \<and>
       (\<exists>v. s ''error'' = Some v \<and> v \<noteq> VNone) \<and>
       (\<exists>k. s ''iterations'' = Some (VInt k) \<and> 3 \<le> k)) \<or>
    (n = Format_Result \<and> n' = END \<and> (\<exists>t. s' = s(''answer'' \<mapsto> VStr t))) \<or>
    (n = END \<and> n' = END \<and> s' = s)"
proof (cases n)
  case START
  with assms show ?thesis by auto
next
  case Plan_Task
  with assms show ?thesis
    by (auto simp: run_node_def split: sum.splits dest!: plan_task_keys)
next
  case Execute_Task
  with assms show ?thesis
    by (auto simp: run_node_def split: sum.splits dest!: execute_task_keys)
next
  case Code_Execution
  with assms show ?thesis
    by (auto simp: run_node_def split: sum.splits dest!: execute_with_exec_keys)
next
  case Conditional_Edge
  with assms show ?thesis
    by (auto simp: path_map_def split: sum.splits option.splits if_splits
        dest!: retry_code_cases)
next
  case Format_Result
  with assms show ?thesis
    by (auto simp: run_node_def split: sum.splits dest!: format_result_keys)
next
  case END
  with assms show ?thesis by auto
qed

lemma step_iterations:
  assumes "step e c = Inr c'" and "fst c \<noteq> END"
  shows "iterations_of (snd c') =
           iterations_of (snd c) + (if fst c = Execute_Task then 1 else 0)"
proof -
  obtain n s n' s' where c: "c = (n, s)" "c' = (n', s')"
    by (cases c, cases c') auto
  from step_effect [of e n s n' s'] assms c show ?thesis
    by (auto simp: iterations_of_def)
qed

section \<open>Invariants of a run\<close>

text \<open>
  A property that every step keeps holds at every node a run visits; the step may rely on
  a second property known of every node of the run.
\<close>

lemma run_invariant_on:
  assumes "I c" and "\<forall>d \<in> set (fst (run e c)). G d"
    and "\<And>c c'. I c \<Longrightarrow> G c \<Longrightarrow> fst c \<noteq> END \<Longrightarrow> step e c = Inr c' \<Longrightarrow> I c'"
  shows "\<forall>c' \<in> set (fst (run e c)). I c'"
  using assms
proof (induction e c rule: run.induct)
  case (1 e c)
  show ?case
  proof (cases "fst c = END")
    case True
    with "1.prems"(1) show ?thesis by (simp add: run.simps)
  next
    case False
    show ?thesis
    proof (cases "step e c")
      case (Inl x)
      with False "1.prems"(1) show ?thesis by (simp add: run.simps [of e c])
    next
      case (Inr c')
      obtain t r where tr: "run e c' = (t, r)" by (cases "run e c'")
      have unfold: "run e c = (c # t, r)"
        using False Inr tr by (simp add: run.simps [of e c])
      from "1.prems"(2) have G: "G c" and G': "\<forall>d \<in> set (fst (run e c')). G d"
        unfolding unfold using tr by simp_all
      have "I c'" by (rule "1.prems"(3) [OF "1.prems"(1) G False Inr])
      then have "\<forall>d \<in> set (fst (run e c')). I d"
        using "1.IH" [OF False Inr] G' "1.prems"(3) by blast
      with "1.prems"(1) tr show ?thesis
        unfolding unfold by simp
    qed
  qed
qed

lemma run_invariant:
  assumes "I c" and "\<And>c c'. I c \<Longrightarrow> fst c \<noteq> END \<Longrightarrow> step e c = Inr c' \<Longrightarrow> I c'"
  shows "\<forall>c' \<in> set (fst (run e c)). I c'"
proof (rule run_invariant_on [where I = I and G = "\<lambda>d. True"])
  show "I c" by (rule assms(1))
  show "\<forall>d \<in> set (fst (run e c)). True" by simp
  show "I c'" if "I c" "fst c \<noteq> END" "step e c = Inr c'" for c c'
    using that by (rule assms(2))
qed

lemma run_nonempty: "fst (run e c) \<noteq> []"
  by (subst run.simps) (simp split: sum.splits prod.splits)

lemma visits_none: "\<forall>c \<in> set t. fst c \<noteq> n \<Longrightarrow> visits n t = 0"
  by (induction t) (auto simp: visits_def)

lemma attempts_okD:
  "attempts_ok c \<Longrightarrow>
     \<exists>k. snd c ''iterations'' = Some (VInt k) \<and> 0 \<le> k \<and> k \<le> 3 \<and> (fst c = END \<longrightarrow> 1 \<le> k)"
  unfolding attempts_ok_def by (auto split: option.splits pyval.splits if_splits)

lemma attempts_ok_step:
  assumes "attempts_ok c" and "fst c \<noteq> END" and "step e c = Inr c'"
  shows "attempts_ok c'"
proof -
  obtain n s n' s' where c: "c = (n, s)" "c' = (n', s')"
    by (cases c, cases c') auto
  from step_effect [of e n s n' s'] assms c show ?thesis
    by (auto simp: attempts_ok_def split: option.splits pyval.splits if_splits)
qed

text \<open>
  The counter plus the synthesis calls still to come never passes 3, and a run that
  reaches \<^verbatim>\<open>END\<close> has added exactly its synthesis calls to the counter.
\<close>

lemma run_attempts:
  assumes "attempts_ok c"
  shows "iterations_of (snd c) + int (visits Execute_Task (fst (run e c))) \<le> 3 \<and>
         (snd (run e c) = None \<longrightarrow>
            fst (last (fst (run e c))) = END \<and>
            iterations_of (snd (last (fst (run e c)))) =
              iterations_of (snd c) + int (visits Execute_Task (fst (run e c))))"
  using assms
proof (induction e c rule: run.induct)
  case (1 e c)
  from "1.prems" have le3: "iterations_of (snd c) \<le> 3"
    and le2: "fst c = Execute_Task \<Longrightarrow> iterations_of (snd c) \<le> 2"
    by (auto simp: attempts_ok_def iterations_of_def split: option.splits pyval.splits if_splits)
  show ?case
  proof (cases "fst c = END")
    case True
    with le3 show ?thesis by (simp add: run.simps [of e c] visits_def)
  next
    case False
    show ?thesis
    proof (cases "step e c")
      case (Inl x)
      with False le3 le2 show ?thesis by (simp add: run.simps [of e c] visits_def)
    next
      case (Inr c')
      have ok': "attempts_ok c'"
        by (rule attempts_ok_step [OF "1.prems" False Inr])
      note IH = "1.IH" [OF False Inr ok']
      have it: "iterations_of (snd c') =
          iterations_of (snd c) + (if fst c = Execute_Task then 1 else 0)"
        by (rule step_iterations [OF Inr False])
      obtain t r where tr: "run e c' = (t, r)" by (cases "run e c'")
      have ne: "t \<noteq> []" using run_nonempty [of e c'] tr by simp
      have unfold: "run e c = (c # t, r)"
        using False Inr tr by (simp add: run.simps [of e c])
      from IH it tr ne show ?thesis
        unfolding unfold by (auto simp: visits_def)
    qed
  qed
qed


text \<open>The counter never goes down along a run.\<close>

lemma run_iterations_from:
  assumes "k \<le> iterations_of (snd c)"
  shows "\<forall>d \<in> set (fst (run e c)). k \<le> iterations_of (snd d)"
proof (rule run_invariant [where I = "\<lambda>d. k \<le> iterations_of (snd d)", OF assms])
  fix c c'
  assume "k \<le> iterations_of (snd c)" "fst c \<noteq> END" "step e c = Inr c'"
  then show "k \<le> iterations_of (snd c')"
    using step_iterations [of e c c'] by (simp split: if_splits)
qed

lemma run_iterations_sorted: "sorted (map (\<lambda>c. iterations_of (snd c)) (fst (run e c)))"
proof (induction e c rule: run.induct)
  case (1 e c)
  show ?case
  proof (cases "fst c = END")
    case True
    then show ?thesis by (simp add: run.simps [of e c])
  next
    case False
    show ?thesis
    proof (cases "step e c")
      case (Inl x)
      with False show ?thesis by (simp add: run.simps [of e c])
    next
      case (Inr c')
      note IH = "1.IH" [OF False Inr]
      have "iterations_of (snd c) \<le> iterations_of (snd c')"
        using step_iterations [OF Inr False] by (simp split: if_splits)
      then have later:
        "\<forall>d \<in> set (fst (run e c')). iterations_of (snd c) \<le> iterations_of (snd d)"
        by (rule run_iterations_from)
      obtain t r where tr: "run e c' = (t, r)" by (cases "run e c'")
      have unfold: "run e c = (c # t, r)"
        using False Inr tr by (simp add: run.simps [of e c])
      from IH later tr show ?thesis
        unfolding unfold by auto
    qed
  qed
qed


lemma plan_kept_step:
  assumes "fst c \<notin> {START, Plan_Task} \<and> snd c ''task_plan'' = v" and "fst c \<noteq> END"
    and "step e c = Inr c'"
  shows "fst c' \<notin> {START, Plan_Task} \<and> snd c' ''task_plan'' = v"
proof -
  obtain n s n' s' where c: "c = (n, s)" "c' = (n', s')"
    by (cases c, cases c') auto
  from step_effect [of e n s n' s'] assms c show ?thesis
    by auto
qed


lemma dom_exec_globals: "dom (exec_globals d) = allow_list"
  by (auto simp: exec_globals_def allow_list_def split: if_splits)

section \<open>The Retry Governor\<close>



section \<open>The Code Synthesizer\<close>

text \<open>
  C8.  A step of the graph changes \<^verbatim>\<open>iterations\<close> only when it leaves \<^verbatim>\<open>Execute Task\<close>:
  there, in either mode, the counter was an integer and is now that integer plus one,
  and \<^verbatim>\<open>code\<close> is the \<^verbatim>\<open>final_code\<close> the model returned for the prompt.  Every other
  step, the execution among them, leaves the counter as it was.  Along a session the
  counter therefore never goes down.
\<close>

theorem iterations_changed_only_by_synthesizer:
  "(\<forall>n' s'. step e (n, s) = Inr (n', s') \<longrightarrow>
      (n = Execute_Task \<longrightarrow>
         (\<exists>p c k. synthesis_prompt e s = Inr p \<and> llm_structured e p = Inr c \<and>
            s ''iterations'' = Some (VInt k) \<and> s' ''iterations'' = Some (VInt (k + 1)) \<and>
            s' ''code'' = Some (VStr c))) \<and>
      (n \<noteq> Execute_Task \<longrightarrow> s' ''iterations'' = s ''iterations'')) \<and>
   sorted (map (\<lambda>c. iterations_of (snd c)) (fst (session e s)))"
proof -
  have "(n = Execute_Task \<longrightarrow>
         (\<exists>p c k. synthesis_prompt e s = Inr p \<and> llm_structured e p = Inr c \<and>
            s ''iterations'' = Some (VInt k) \<and> s' ''iterations'' = Some (VInt (k + 1)) \<and>
            s' ''code'' = Some (VStr c))) \<and>
      (n \<noteq> Execute_Task \<longrightarrow> s' ''iterations'' = s ''iterations'')"
    if "step e (n, s) = Inr (n', s')" for n' s'
    using step_effect [OF that] by auto
  moreover have "sorted (map (\<lambda>c. iterations_of (snd c)) (fst (session e s)))"
    unfolding session_def by (rule run_iterations_sorted)
  ultimately show ?thesis by blast
qed

theorem iterations_changed_only_by_synthesizer_witness:
  "step (sample_env (RaisedException ''boom'')) (Execute_Task, sample_state (VStr ''boom'') 1) =
     Inr (Code_Execution,
       (sample_state (VStr ''boom'') 1)
         (''code'' \<mapsto> VStr ''output_dict = {}'', ''iterations'' \<mapsto> VInt 2)) \<and>
   map (\<lambda>c. iterations_of (snd c))
     (fst (session (sample_env (RaisedException ''boom'')) (initial_state ''q''))) =
     [0, 0, 0, 1, 1, 1, 2, 2, 2, 3, 3, 3]"
  using iterations_changed_only_by_synthesizer [of "sample_env (RaisedException ''boom'')"
      Execute_Task "sample_state (VStr ''boom'') 1"]
  by (simp add: eval_defs run.simps sample_state_def iterations_of_def)

text \<open>
  C5.  The two tests disagree on the empty string.  Code that raises an exception with
  no message (a failing \<^verbatim>\<open>assert\<close>, \<^verbatim>\<open>raise ValueError()\<close>) leaves \<^verbatim>\<open>error = ""\<close>;
  \<^verbatim>\<open>retry_code\<close> compares with \<^verbatim>\<open>None\<close> and answers \<^verbatim>\<open>"RETRY"\<close>, and \<^verbatim>\<open>execute_task\<close>
  tests \<^verbatim>\<open>if error:\<close> and builds the prompt of a fresh generation, without the previous
  code and error.
\<close>

theorem empty_error_text_retries_in_fresh_mode:
  "\<exists>s1. step (sample_env (RaisedException [])) (Code_Execution, sample_state VNone 1) =
           Inr (Conditional_Edge, s1) \<and>
         s1 ''error'' = Some (VStr []) \<and>
         retry_code s1 = Inr (''RETRY'', s1) \<and>
         step (sample_env (RaisedException [])) (Conditional_Edge, s1) =
           Inr (Execute_Task, s1) \<and>
         map_sum id is_repair (synthesis_prompt (sample_env (RaisedException [])) s1) =
           Inr False \<and>
         map_sum id is_fresh (synthesis_prompt (sample_env (RaisedException [])) s1) =
           Inr True"
  by (simp add: eval_defs sample_state_def)

section \<open>The execution of generated code\<close>

text \<open>
  C6.  Code that runs to its end without binding \<^verbatim>\<open>output_dict\<close> is a failed attempt:
  the node returns the error text \<^verbatim>\<open>Missing output_dict\<close> together with the code, and
  writes neither an output nor the success value \<^verbatim>\<open>None\<close> of \<^verbatim>\<open>error\<close>.
\<close>

theorem missing_output_dict_is_error:
  assumes "s ''code'' = Some code" and "s ''iterations'' = Some it"
    and "py_exec e code (exec_globals (df e)) exec_locals = Completed locals"
    and "locals ''output_dict'' = None"
  shows "execute_with_exec e s =
           Inr [''code'' \<mapsto> code, ''error'' \<mapsto> VStr ''Missing output_dict'']"
  using assms by (simp add: execute_with_exec_def lookup_def)

theorem missing_output_dict_is_error_witness:
  "execute_with_exec (sample_env (Completed [''total'' \<mapsto> VInt 7])) (sample_state VNone 1) =
     Inr [''code'' \<mapsto> VStr ''output_dict = {}'', ''error'' \<mapsto> VStr ''Missing output_dict'']"
proof -
  have code: "sample_state VNone 1 ''code'' = Some (VStr ''output_dict = {}'')"
    and iterations: "sample_state VNone 1 ''iterations'' = Some (VInt 1)"
    by (simp_all add: sample_state_def)
  have ran: "py_exec (sample_env (Completed [''total'' \<mapsto> VInt 7])) (VStr ''output_dict = {}'')
      (exec_globals (df (sample_env (Completed [''total'' \<mapsto> VInt 7])))) exec_locals =
      Completed [''total'' \<mapsto> VInt 7]"
    by (simp add: sample_env_def)
  have unbound: "[''total'' \<mapsto> VInt 7] ''output_dict'' = None"
    by simp
  show ?thesis
    by (rule missing_output_dict_is_error [of "sample_state VNone 1" "VStr ''output_dict = {}''"
          "VInt 1" "sample_env (Completed [''total'' \<mapsto> VInt 7])" "[''total'' \<mapsto> VInt 7]",
          OF code iterations ran unbound])
qed




text \<open>
  C9, as stated, fails: the name \<^verbatim>\<open>__builtins__\<close> is not on the list, and the code runs
  with it bound, so it can reach \<^verbatim>\<open>__import__\<close>, \<^verbatim>\<open>open\<close> and the rest of the built-ins.
\<close>

theorem exec_namespace_has_builtins_counterexample:
  "''__builtins__'' \<notin> allow_list \<and>
   exec_namespace (exec_globals sample_df) ''__builtins__'' = Some Builtins"
  by (simp add: exec_namespace_def dom_exec_globals) (simp add: allow_list_def)

text \<open>
  C9, amended.  The globals dictionary the node passes to \<^verbatim>\<open>exec\<close> binds the seven names
  \<^verbatim>\<open>df\<close>, \<^verbatim>\<open>pd\<close>, \<^verbatim>\<open>px\<close>, \<^verbatim>\<open>np\<close>, \<^verbatim>\<open>re\<close>, \<^verbatim>\<open>dt\<close>, \<^verbatim>\<open>go\<close> and no other, \<^verbatim>\<open>df\<close> being the
  dataset, and the locals dictionary is empty; the namespace the code runs in has the
  built-ins besides.
\<close>

theorem exec_bindings:
  "dom (exec_globals d) = allow_list \<and>
   exec_globals d ''df'' = Some (Dataset d) \<and>
   exec_locals = Map.empty \<and>
   dom (exec_namespace (exec_globals d)) = insert ''__builtins__'' allow_list"
  by (simp add: dom_exec_globals exec_namespace_def exec_locals_def)
    (simp add: allow_list_def exec_globals_def)




section \<open>Sessions\<close>

text \<open>
  C2.  In a session that starts with \<^verbatim>\<open>iterations = 0\<close>, the counter is an integer
  between 0 and 3 in every state the run passes through, \<^verbatim>\<open>Execute Task\<close> is entered at
  most 3 times, and when the run reaches \<^verbatim>\<open>END\<close> the counter is between 1 and 3 and
  equals the number of times \<^verbatim>\<open>Execute Task\<close> was entered.
\<close>

theorem attempt_budget:
  assumes "s0 ''iterations'' = Some (VInt 0)"
  shows "(\<forall>c \<in> set (fst (session e s0)).
            \<exists>k. snd c ''iterations'' = Some (VInt k) \<and> 0 \<le> k \<and> k \<le> 3) \<and>
         visits Execute_Task (fst (session e s0)) \<le> 3 \<and>
         (snd (session e s0) = None \<longrightarrow>
            (\<exists>k. snd (last (fst (session e s0))) ''iterations'' = Some (VInt k) \<and>
                  1 \<le> k \<and> k \<le> 3 \<and> k = int (visits Execute_Task (fst (session e s0)))))"
proof -
  let ?t = "fst (session e s0)"
  have start: "attempts_ok (START, s0)"
    using assms by (simp add: attempts_ok_def)
  have inv: "\<forall>c \<in> set ?t. attempts_ok c"
    unfolding session_def
    by (rule run_invariant [where I = attempts_ok, OF start]) (rule attempts_ok_step)
  have bounds: "\<exists>k. snd c ''iterations'' = Some (VInt k) \<and> 0 \<le> k \<and> k \<le> 3"
    if "c \<in> set ?t" for c
    using attempts_okD [OF inv [rule_format, OF that]] by blast
  have it0: "iterations_of s0 = 0"
    using assms by (simp add: iterations_of_def)
  have count: "int (visits Execute_Task ?t) \<le> 3 \<and>
      (snd (session e s0) = None \<longrightarrow>
         fst (last ?t) = END \<and> iterations_of (snd (last ?t)) = int (visits Execute_Task ?t))"
    using run_attempts [OF start, of e] it0 by (simp add: session_def)
  have at_end: "\<exists>k. snd (last ?t) ''iterations'' = Some (VInt k) \<and> 1 \<le> k \<and> k \<le> 3 \<and>
      k = int (visits Execute_Task ?t)" if fin: "snd (session e s0) = None"
  proof -
    have "last ?t \<in> set ?t"
      unfolding session_def using run_nonempty by simp
    with inv have ok: "attempts_ok (last ?t)" by blast
    from count fin have "fst (last ?t) = END"
      and "iterations_of (snd (last ?t)) = int (visits Execute_Task ?t)" by simp_all
    with attempts_okD [OF ok] show ?thesis
      by (auto simp: iterations_of_def)
  qed
  from bounds count at_end show ?thesis by auto
qed

theorem attempt_budget_witness:
  "snd (session (sample_env (RaisedException ''boom'')) (initial_state ''q'')) = None \<and>
   snd (last (fst (session (sample_env (RaisedException ''boom'')) (initial_state ''q''))))
     ''iterations'' = Some (VInt 3) \<and>
   visits Execute_Task
     (fst (session (sample_env (RaisedException ''boom'')) (initial_state ''q''))) = 3"
proof -
  have start: "initial_state ''q'' ''iterations'' = Some (VInt 0)"
    by (simp add: initial_state_def)
  from attempt_budget [of "initial_state ''q''" "sample_env (RaisedException ''boom'')",
      OF start]
  show ?thesis by (simp add: eval_defs run.simps)
qed



text \<open>
  C7.  A session enters \<^verbatim>\<open>Plan Task\<close> exactly once.  In every state after it,
  \<^verbatim>\<open>task_plan\<close> is the text \<^verbatim>\<open>plan_task\<close> returned on the initial state, and every prompt
  built in \<^verbatim>\<open>Execute Task\<close>, the repair prompts among them, carries that text as its plan.
\<close>

theorem task_plan_written_once:
  "visits Plan_Task (fst (session e s0)) = 1 \<and>
   (\<forall>c \<in> set (fst (session e s0)). fst c \<notin> {START, Plan_Task} \<longrightarrow>
      (\<exists>t. plan_task e s0 = Inr [''task_plan'' \<mapsto> VStr t] \<and>
           snd c ''task_plan'' = Some (VStr t) \<and>
           (\<forall>p. fst c = Execute_Task \<and> synthesis_prompt e (snd c) = Inr p \<longrightarrow>
              prompt_plan p = Some (VStr t))))"
proof (cases "step e (Plan_Task, s0)")
  case (Inl x)
  then have "fst (session e s0) = [(START, s0), (Plan_Task, s0)]"
    by (simp add: session_def run.simps)
  then show ?thesis by (simp add: visits_def)
next
  case (Inr c1)
  obtain n1 s1 where c1: "c1 = (n1, s1)" by (cases c1)
  from step_effect [of e Plan_Task s0 n1 s1] Inr c1 obtain t
    where t: "plan_task e s0 = Inr [''task_plan'' \<mapsto> VStr t]"
      and n1: "n1 = Execute_Task" and s1: "s1 = s0(''task_plan'' \<mapsto> VStr t)"
    by auto
  let ?I = "\<lambda>c. fst c \<notin> {START, Plan_Task} \<and> snd c ''task_plan'' = Some (VStr t)"
  have "?I c1" using c1 n1 s1 by simp
  then have rest: "\<forall>c \<in> set (fst (run e c1)). ?I c"
    by (rule run_invariant [where I = ?I]) (rule plan_kept_step)
  obtain tr r where tr: "run e c1 = (tr, r)" by (cases "run e c1")
  have whole: "fst (session e s0) = (START, s0) # (Plan_Task, s0) # tr"
    using Inr tr
    by (simp add: session_def run.simps [of e "(START, s0)"] run.simps [of e "(Plan_Task, s0)"])
  from rest tr have tr_inv: "\<forall>c \<in> set tr. ?I c" by simp
  then have "visits Plan_Task tr = 0"
    by (intro visits_none) auto
  then have once: "visits Plan_Task (fst (session e s0)) = 1"
    unfolding whole by (simp add: visits_def)
  have "\<exists>t. plan_task e s0 = Inr [''task_plan'' \<mapsto> VStr t] \<and>
           snd c ''task_plan'' = Some (VStr t) \<and>
           (\<forall>p. fst c = Execute_Task \<and> synthesis_prompt e (snd c) = Inr p \<longrightarrow>
              prompt_plan p = Some (VStr t))"
    if "c \<in> set (fst (session e s0))" "fst c \<notin> {START, Plan_Task}" for c
  proof -
    from that whole have "c \<in> set tr" by auto
    with tr_inv have "snd c ''task_plan'' = Some (VStr t)" by blast
    with t show ?thesis by (auto dest: synthesis_prompt_plan)
  qed
  with once show ?thesis by blast
qed

theorem task_plan_written_once_witness:
  "map (\<lambda>c. map_sum id (\<lambda>p. (is_repair p, prompt_plan p))
              (synthesis_prompt (sample_env (RaisedException ''boom'')) (snd c)))
     (filter (\<lambda>c. fst c = Execute_Task)
        (fst (session (sample_env (RaisedException ''boom'')) (initial_state ''q'')))) =
   [Inr (False, Some (VStr ''some text'')),
    Inr (True, Some (VStr ''some text'')),
    Inr (True, Some (VStr ''some text''))]"
  using task_plan_written_once [of "sample_env (RaisedException ''boom'')" "initial_state ''q''"]
  by (simp add: eval_defs run.simps)

end
